theory Spec2Isabelle
  imports Main
begin

section \<open>The amp-selector widget (extensions/amp-selector/0.1/amp-selector.js)\<close>

text \<open>
  A shallow embedding of the class \<open>AmpSelector\<close>. The private members of the class end
  in an underscore (\<open>setSelection_\<close>, \<open>options_\<close>, ...); the names here are the same
  without it.

  DOM elements are mutable objects with identity. An element is referred to by an
  address, and the attributes and the \<open>tabIndex\<close> property of every element live in an
  explicit store, so that the arrays \<open>options_\<close> and \<open>selectedOptions_\<close> hold references
  and two of them may alias.
\<close>

subsection \<open>Data model\<close>

type_synonym elem = nat

record element =
  attrs :: "string \<rightharpoonup> string"
  tabIndex :: int

text \<open>The enum \<open>KEYBOARD_SELECT_MODES\<close> (lines 30-34).\<close>

datatype kb_mode = NONE | FOCUS | SELECT

text \<open>A hidden input created by \<open>setInputs_\<close> (lines 235-242).\<close>

record hidden_input =
  input_type :: string
  input_name :: string
  input_value :: string
  input_form :: "string option"

text \<open>The data of the custom event \<open>amp-selector.select\<close> (lines 283-286).\<close>

record select_event =
  targetOption :: "string option"
  selectedOptionsData :: "string option list"

text \<open>
  The fields of the class (lines 43-70), the attributes of the host element
  \<open>this.element\<close>, the store of elements, the trace of the events handed to
  \<open>this.action_.trigger\<close>, and the element that last received keyboard focus.
  The field \<open>inputs\<close> stands for the array \<open>inputs_\<close> and for the hidden inputs among
  the children of the host element: \<open>setInputs_\<close> removes and appends them together.
\<close>

record selector =
  isMultiple :: bool
  selectedOptions :: "elem list"
  options :: "elem list"
  inputs :: "hidden_input list"
  isDisabled :: bool
  focusedIndex :: int
  kbSelectMode :: kb_mode
  hostAttrs :: "string \<rightharpoonup> string"
  store :: "elem \<Rightarrow> element"
  triggered :: "select_event list"
  docFocus :: "elem option"

datatype error = TypeError | UserAssert string

subsection \<open>JavaScript and DOM primitives\<close>

text \<open>Truthiness of a value that is a string or null: null and the empty string are falsy.\<close>

definition truthy :: "string option \<Rightarrow> bool" where
  "truthy v = (case v of None \<Rightarrow> False | Some x \<Rightarrow> x \<noteq> [])"

text \<open>The string a value that is a string or null converts to.\<close>

definition js_string :: "string option \<Rightarrow> string" where
  "js_string v = (case v of None \<Rightarrow> ''null'' | Some x \<Rightarrow> x)"

text \<open>\<open>xs[i]\<close>: \<open>undefined\<close> (here \<open>None\<close>) outside the array.\<close>

definition nth_opt :: "'a list \<Rightarrow> int \<Rightarrow> 'a option" where
  "nth_opt xs i = (if 0 \<le> i \<and> i < int (length xs) then Some (xs ! nat i) else None)"

text \<open>\<open>Array.prototype.indexOf\<close>: the first index, or -1.\<close>

fun indexOf :: "'a list \<Rightarrow> 'a \<Rightarrow> int" where
  "indexOf [] e = - 1"
| "indexOf (x # xs) e =
     (if x = e then 0 else (let i = indexOf xs e in if i = - 1 then - 1 else i + 1))"

text \<open>\<open>xs.splice(i, 1)\<close> for an index inside the array.\<close>

definition splice1 :: "nat \<Rightarrow> 'a list \<Rightarrow> 'a list" where
  "splice1 i xs = take i xs @ drop (Suc i) xs"

text \<open>
  The remainder operator \<open>%\<close> on integers: the sign of the result is the sign of the
  dividend; the result is NaN (here \<open>None\<close>) when the divisor is zero.
\<close>

definition js_rem :: "int \<Rightarrow> int \<Rightarrow> int option" where
  "js_rem a b = (if b = 0 then None else Some (sgn a * (\<bar>a\<bar> mod \<bar>b\<bar>)))"

definition hasAttribute :: "selector \<Rightarrow> elem \<Rightarrow> string \<Rightarrow> bool" where
  "hasAttribute s e k = (attrs (store s e) k \<noteq> None)"

definition getAttribute :: "selector \<Rightarrow> elem \<Rightarrow> string \<Rightarrow> string option" where
  "getAttribute s e k = attrs (store s e) k"

definition setAttribute :: "elem \<Rightarrow> string \<Rightarrow> string \<Rightarrow> selector \<Rightarrow> selector" where
  "setAttribute e k v s =
     s\<lparr>store := (store s)(e := (store s e)\<lparr>attrs := (attrs (store s e))(k \<mapsto> v)\<rparr>)\<rparr>"

definition removeAttribute :: "elem \<Rightarrow> string \<Rightarrow> selector \<Rightarrow> selector" where
  "removeAttribute e k s =
     s\<lparr>store := (store s)(e := (store s e)\<lparr>attrs := (attrs (store s e))(k := None)\<rparr>)\<rparr>"

definition setTabIndex :: "elem \<Rightarrow> int \<Rightarrow> selector \<Rightarrow> selector" where
  "setTabIndex e i s = s\<lparr>store := (store s)(e := (store s e)\<lparr>tabIndex := i\<rparr>)\<rparr>"

text \<open>
  Modelled from the spec: \<open>tryFocus\<close> of \<open>src/dom\<close>, which is not among the sources;
  it moves keyboard focus to the element.
\<close>

definition tryFocus :: "elem \<Rightarrow> selector \<Rightarrow> selector" where
  "tryFocus e s = s\<lparr>docFocus := Some e\<rparr>"

subsection \<open>Select and Deselect (lines 366-403)\<close>

definition clearSelection :: "elem \<Rightarrow> selector \<Rightarrow> selector" where
  "clearSelection element s =
     (let s1 = removeAttribute element ''selected'' s;
          s2 = setAttribute element ''aria-selected'' ''false'' s1;
          selIndex = indexOf (selectedOptions s2) element
      in if selIndex \<noteq> - 1
         then s2\<lparr>selectedOptions := splice1 (nat selIndex) (selectedOptions s2)\<rparr>
         else s2)"

text \<open>The loop of \<open>clearAllSelections_\<close>: \<open>pop\<close> takes the last element off the array.\<close>

function clearAllSelections :: "selector \<Rightarrow> selector" where
  "clearAllSelections s =
     (if length (selectedOptions s) > 0
      then (let el = last (selectedOptions s);
                s1 = s\<lparr>selectedOptions := butlast (selectedOptions s)\<rparr>
            in clearAllSelections (clearSelection el s1))
      else s)"
  by pat_completeness auto
termination
proof (relation "measure (\<lambda>s. length (selectedOptions s))")
  show "wf (measure (\<lambda>s. length (selectedOptions s)))" by simp
next
  fix s :: selector and x xa
  assume pos: "0 < length (selectedOptions s)"
    and x: "x = last (selectedOptions s)"
    and xa: "xa = s\<lparr>selectedOptions := butlast (selectedOptions s)\<rparr>"
  have "length (selectedOptions (clearSelection x xa)) \<le> length (selectedOptions xa)"
    by (auto simp add: clearSelection_def Let_def setAttribute_def removeAttribute_def
        splice1_def min_def)
  also have "\<dots> < length (selectedOptions s)"
    using pos xa by simp
  finally show "(clearSelection x xa, s) \<in> measure (\<lambda>s. length (selectedOptions s))"
    by simp
qed

declare clearAllSelections.simps [simp del]

definition setSelection :: "elem \<Rightarrow> selector \<Rightarrow> selector" where
  "setSelection element s =
     (if element \<in> set (selectedOptions s) then s
      else (let s1 = (if \<not> isMultiple s then clearAllSelections s else s);
                s2 = setAttribute element ''selected'' '''' s1;
                s3 = setAttribute element ''aria-selected'' ''true'' s2
            in s3\<lparr>selectedOptions := selectedOptions s3 @ [element]\<rparr>))"

subsection \<open>Focus Recompute (lines 168-188)\<close>

definition updateFocus :: "selector \<Rightarrow> selector" where
  "updateFocus s =
     (if kbSelectMode s = NONE then s
      else (let s1 = fold (\<lambda>option. setTabIndex option (- 1)) (options s) s;
                initialFocusedElement =
                  (if isMultiple s1 then nth_opt (options s1) 0
                   else (case nth_opt (selectedOptions s1) 0 of
                           Some e \<Rightarrow> Some e
                         | None \<Rightarrow> nth_opt (options s1) 0))
            in case initialFocusedElement of
                 None \<Rightarrow> s1
               | Some e \<Rightarrow>
                   setTabIndex e 0 (s1\<lparr>focusedIndex := indexOf (options s1) e\<rparr>)))"

subsection \<open>Form Sync (lines 219-250)\<close>

text \<open>
  One round of the \<open>forEach\<close> over \<open>selectedOptions_\<close>: the accumulator is the pair of the
  new \<open>inputs_\<close> and of \<open>selectedValues\<close>.
\<close>

definition setInputs_step ::
  "selector \<Rightarrow> string \<Rightarrow> string option \<Rightarrow> elem \<Rightarrow>
   hidden_input list \<times> string option list \<Rightarrow> hidden_input list \<times> string option list" where
  "setInputs_step s elementName formId option acc =
     (if \<not> hasAttribute s option ''disabled''
      then (let value = getAttribute s option ''option'';
                hidden = \<lparr>input_type = ''hidden'', input_name = elementName,
                          input_value = js_string value,
                          input_form = (if truthy formId then formId else None)\<rparr>
            in (fst acc @ [hidden], snd acc @ [value]))
      else acc)"

definition setInputs :: "selector \<Rightarrow> string option list \<times> selector" where
  "setInputs s =
     (let elementName = hostAttrs s ''name''
      in if \<not> truthy elementName \<or> isDisabled s then ([], s)
         else (let formId = hostAttrs s ''form'';
                   r = fold (setInputs_step s (js_string elementName) formId)
                         (selectedOptions s) ([], [])
               in (snd r, s\<lparr>inputs := fst r\<rparr>)))"

subsection \<open>Option Picked (lines 256-290)\<close>

text \<open>
  The callback given to \<open>mutateElement\<close> is run at once. \<open>selectedValues\<close> is declared
  without a value: \<open>None\<close> is \<open>undefined\<close>, and an array, also the empty one, is truthy.
\<close>

definition onOptionPicked :: "elem \<Rightarrow> selector \<Rightarrow> selector" where
  "onOptionPicked el s =
     (if hasAttribute s el ''disabled'' then s
      else (let (selectedValues, s1) =
                  (if hasAttribute s el ''selected''
                   then (if isMultiple s
                         then (let r = setInputs (clearSelection el s)
                               in (Some (fst r), snd r))
                         else (None, s))
                   else (let r = setInputs (setSelection el s)
                         in (Some (fst r), snd r)))
            in case selectedValues of
                 None \<Rightarrow> s1
               | Some vs \<Rightarrow>
                   (let s2 = updateFocus s1
                    in s2\<lparr>triggered := triggered s2 @
                         [\<lparr>targetOption = getAttribute s2 el ''option'',
                           selectedOptionsData = vs\<rparr>]\<rparr>)))"

subsection \<open>Keyboard navigation (lines 313-359)\<close>

text \<open>
  The key codes of \<open>src/utils/keycodes\<close> are not among the sources: the four arrow keys
  are constructors, and every other key is \<open>OTHER_KEY\<close>. The direction of the document
  is the \<open>dir\<close> attribute of its body.
\<close>

datatype keycode = LEFT_ARROW | UP_ARROW | RIGHT_ARROW | DOWN_ARROW | OTHER_KEY

definition key_dir :: "string option \<Rightarrow> keycode \<Rightarrow> int" where
  "key_dir bodyDir k =
     (let isLtr = (bodyDir \<noteq> Some ''rtl'')
      in case k of
           LEFT_ARROW \<Rightarrow> (if isLtr then - 1 else 1)
         | UP_ARROW \<Rightarrow> - 1
         | RIGHT_ARROW \<Rightarrow> (if isLtr then 1 else - 1)
         | DOWN_ARROW \<Rightarrow> 1
         | OTHER_KEY \<Rightarrow> 0)"

text \<open>
  Writing \<open>tabIndex\<close> on \<open>undefined\<close> raises a TypeError. A focused index that is NaN
  compares false with 0 and indexes no element. The call of \<open>preventDefault\<close> acts on
  the event and not on the widget, and is left out.
\<close>

definition keyDownHandler :: "string option \<Rightarrow> keycode \<Rightarrow> selector \<Rightarrow> error + selector" where
  "keyDownHandler bodyDir k s =
     (let dir = key_dir bodyDir k
      in if dir = 0 then Inr s
         else (case nth_opt (options s) (focusedIndex s) of
                 None \<Rightarrow> Inl TypeError
               | Some cur \<Rightarrow>
                   (let s1 = setTabIndex cur (- 1) s
                    in case js_rem (focusedIndex s1 + dir) (int (length (options s1))) of
                         None \<Rightarrow> Inl TypeError
                       | Some r \<Rightarrow>
                           (let s2 = s1\<lparr>focusedIndex := r\<rparr>;
                                s3 = (if focusedIndex s2 < 0
                                      then s2\<lparr>focusedIndex :=
                                             focusedIndex s2 + int (length (options s2))\<rparr>
                                      else s2)
                            in case nth_opt (options s3) (focusedIndex s3) of
                                 None \<Rightarrow> Inl TypeError
                               | Some newSelectedOption \<Rightarrow>
                                   (let s4 = tryFocus newSelectedOption
                                               (setTabIndex newSelectedOption 0 s3)
                                    in if kbSelectMode s4 = SELECT
                                       then Inr (onOptionPicked newSelectedOption s4)
                                       else Inr s4)))))"

text \<open>Pressing the same key several times; the first error ends the run.\<close>

fun press :: "nat \<Rightarrow> string option \<Rightarrow> keycode \<Rightarrow> selector \<Rightarrow> error + selector" where
  "press 0 bodyDir k s = Inr s"
| "press (Suc n) bodyDir k s =
     (case keyDownHandler bodyDir k s of
        Inl e \<Rightarrow> Inl e
      | Inr s' \<Rightarrow> press n bodyDir k s')"

subsection \<open>External selection (lines 117-157)\<close>

text \<open>
  The new value of the \<open>selected\<close> attribute: null, an array, or one value. A value is
  given by the string it converts to, which is the key \<open>map[value]\<close> writes.
\<close>

datatype new_value = Null | Single string | Array "string list"

definition selectedAttributeMutated :: "new_value \<Rightarrow> selector \<Rightarrow> selector" where
  "selectedAttributeMutated newValue s =
     (case newValue of
        Null \<Rightarrow> clearAllSelections s
      | _ \<Rightarrow>
        (let selectedArray0 = (case newValue of Array xs \<Rightarrow> xs | Single v \<Rightarrow> [v] | Null \<Rightarrow> []);
             selectedArray = (if \<not> isMultiple s then take 1 selectedArray0 else selectedArray0);
             s1 = fold (\<lambda>element t.
                          if js_string (getAttribute t element ''option'') \<in> set selectedArray
                          then setSelection element t
                          else clearSelection element t)
                    (options s) s
         in snd (setInputs (updateFocus s1))))"

text \<open>\<open>mutations['selected']\<close> is \<open>undefined\<close> (here \<open>None\<close>) when the attribute did not change.\<close>

definition mutatedAttributesCallback :: "new_value option \<Rightarrow> selector \<Rightarrow> selector" where
  "mutatedAttributesCallback selected s =
     (case selected of None \<Rightarrow> s | Some v \<Rightarrow> selectedAttributeMutated v s)"

subsection \<open>Initialization (lines 40-114, 193-210)\<close>

text \<open>The constructor, for a host element with the given attributes, over a store.\<close>

definition constructor :: "(string \<rightharpoonup> string) \<Rightarrow> (elem \<Rightarrow> element) \<Rightarrow> selector" where
  "constructor host st =
     \<lparr>isMultiple = False, selectedOptions = [], options = [], inputs = [],
      isDisabled = False, focusedIndex = 0, kbSelectMode = NONE,
      hostAttrs = host, store = st, triggered = [], docFocus = None\<rparr>"

text \<open>One round of the \<open>forEach\<close> of \<open>init_\<close>.\<close>

definition init_step :: "elem \<Rightarrow> selector \<Rightarrow> selector" where
  "init_step option s =
     (let s1 = setAttribute option ''role'' ''option'' s;
          s2 = (if hasAttribute s1 option ''disabled''
                then setAttribute option ''aria-disabled'' ''true'' s1 else s1);
          s3 = (if hasAttribute s2 option ''selected''
                then setSelection option s2 else clearSelection option s2);
          s4 = setTabIndex option 0 s3
      in s4\<lparr>options := options s4 @ [option]\<rparr>)"

text \<open>
  \<open>init_\<close>; the argument \<open>els\<close> is the result of \<open>querySelectorAll('[option]')\<close>, the
  elements below the host that carry the \<open>option\<close> attribute, in document order.
\<close>

definition init :: "elem list \<Rightarrow> selector \<Rightarrow> selector" where
  "init els s = snd (setInputs (updateFocus (fold init_step els s)))"

text \<open>
  Modelled from the spec: \<open>isEnumValue\<close> of \<open>src/types\<close>, which is not among the
  sources; the value is one of the strings of the enum.
\<close>

definition parse_kb_mode :: "string \<Rightarrow> kb_mode option" where
  "parse_kb_mode v =
     (if v = ''none'' then Some NONE
      else if v = ''focus'' then Some FOCUS
      else if v = ''select'' then Some SELECT
      else None)"

text \<open>\<open>buildCallback\<close>, without the registration of the listeners.\<close>

definition buildCallback :: "elem list \<Rightarrow> selector \<Rightarrow> error + selector" where
  "buildCallback els s =
     (let s1 = s\<lparr>isMultiple := (hostAttrs s ''multiple'' \<noteq> None),
                 isDisabled := (hostAttrs s ''disabled'' \<noteq> None)\<rparr>;
          s2 = s1\<lparr>hostAttrs := (hostAttrs s1)(''role'' \<mapsto> ''listbox'')\<rparr>;
          s3 = (if isMultiple s2
                then s2\<lparr>hostAttrs := (hostAttrs s2)(''aria-multiselectable'' \<mapsto> ''true'')\<rparr>
                else s2);
          s4 = (if isDisabled s3
                then s3\<lparr>hostAttrs := (hostAttrs s3)(''aria-disabled'' \<mapsto> ''true'')\<rparr>
                else s3);
          kbSelectMode0 = hostAttrs s4 ''keyboard-select-mode'';
          kbSelectMode1 = (if \<not> truthy kbSelectMode0 then ''none'' else js_string kbSelectMode0)
      in case parse_kb_mode kbSelectMode1 of
           None \<Rightarrow> Inl (UserAssert ''Invalid keyboard-select-mode'')
         | Some m \<Rightarrow>
             if isMultiple s4 \<and> m = SELECT
             then Inl (UserAssert
               ''[keyboard-select-mode=select] not supported for multiple selection amp-selector'')
             else Inr (init els (s4\<lparr>kbSelectMode := m\<rparr>)))"

subsection \<open>Example documents\<close>

definition mk_element :: "(string \<times> string) list \<Rightarrow> element" where
  "mk_element kvs = \<lparr>attrs = map_of kvs, tabIndex = 0\<rparr>"

text \<open>
  Four options: A and D carry \<open>selected\<close>, B carries \<open>selected\<close> and \<open>disabled\<close>,
  C carries neither. Every other address is an element without attributes.
\<close>

definition demo_store :: "elem \<Rightarrow> element" where
  "demo_store e =
     (if e = 0 then mk_element [(''option'', ''A''), (''selected'', [])]
      else if e = 1
        then mk_element [(''option'', ''B''), (''selected'', []), (''disabled'', [])]
      else if e = 2 then mk_element [(''option'', ''C'')]
      else if e = 3 then mk_element [(''option'', ''D''), (''selected'', [])]
      else mk_element [])"

text \<open>
  The widget after the constructor and \<open>buildCallback\<close>; the widget as constructed
  if the build fails.
\<close>

definition built ::
  "(string \<times> string) list \<Rightarrow> (elem \<Rightarrow> element) \<Rightarrow> elem list \<Rightarrow> selector" where
  "built host st els =
     (case buildCallback els (constructor (map_of host) st) of
        Inr s \<Rightarrow> s
      | Inl e \<Rightarrow> constructor (map_of host) st)"

definition demo_new :: selector where
  "demo_new = constructor Map.empty demo_store"

definition demo_multi :: selector where
  "demo_multi = built [(''multiple'', []), (''name'', ''choice'')] demo_store [0, 1, 2, 3]"

definition demo_pair :: selector where
  "demo_pair = built [(''multiple'', []), (''name'', ''choice'')] demo_store [0, 3]"

definition demo_single :: selector where
  "demo_single =
     built [(''name'', ''choice''), (''keyboard-select-mode'', ''select'')] demo_store
       [0, 1, 2, 3]"

definition demo_unnamed :: selector where
  "demo_unnamed = built [] demo_store [0, 1, 2, 3]"

definition demo_empty :: selector where
  "demo_empty = built [(''keyboard-select-mode'', ''focus'')] demo_store []"

section \<open>Properties of the operations\<close>

subsection \<open>Attributes, indices and Deselect\<close>

lemma setAttribute_fields [simp]:
  "isMultiple (setAttribute e k v s) = isMultiple s"
  "selectedOptions (setAttribute e k v s) = selectedOptions s"
  "options (setAttribute e k v s) = options s"
  "inputs (setAttribute e k v s) = inputs s"
  "isDisabled (setAttribute e k v s) = isDisabled s"
  "focusedIndex (setAttribute e k v s) = focusedIndex s"
  "kbSelectMode (setAttribute e k v s) = kbSelectMode s"
  "hostAttrs (setAttribute e k v s) = hostAttrs s"
  "triggered (setAttribute e k v s) = triggered s"
  "docFocus (setAttribute e k v s) = docFocus s"
  by (simp_all add: setAttribute_def)

lemma removeAttribute_fields [simp]:
  "isMultiple (removeAttribute e k s) = isMultiple s"
  "selectedOptions (removeAttribute e k s) = selectedOptions s"
  "options (removeAttribute e k s) = options s"
  "inputs (removeAttribute e k s) = inputs s"
  "isDisabled (removeAttribute e k s) = isDisabled s"
  "focusedIndex (removeAttribute e k s) = focusedIndex s"
  "kbSelectMode (removeAttribute e k s) = kbSelectMode s"
  "hostAttrs (removeAttribute e k s) = hostAttrs s"
  "triggered (removeAttribute e k s) = triggered s"
  "docFocus (removeAttribute e k s) = docFocus s"
  by (simp_all add: removeAttribute_def)

lemma setTabIndex_fields [simp]:
  "isMultiple (setTabIndex e i s) = isMultiple s"
  "selectedOptions (setTabIndex e i s) = selectedOptions s"
  "options (setTabIndex e i s) = options s"
  "inputs (setTabIndex e i s) = inputs s"
  "isDisabled (setTabIndex e i s) = isDisabled s"
  "focusedIndex (setTabIndex e i s) = focusedIndex s"
  "kbSelectMode (setTabIndex e i s) = kbSelectMode s"
  "hostAttrs (setTabIndex e i s) = hostAttrs s"
  "triggered (setTabIndex e i s) = triggered s"
  "docFocus (setTabIndex e i s) = docFocus s"
  by (simp_all add: setTabIndex_def)

lemma attrs_setAttribute [simp]:
  "attrs (store (setAttribute e k v s) e') =
     (if e' = e then (attrs (store s e))(k \<mapsto> v) else attrs (store s e'))"
  by (simp add: setAttribute_def)

lemma attrs_removeAttribute [simp]:
  "attrs (store (removeAttribute e k s) e') =
     (if e' = e then (attrs (store s e))(k := None) else attrs (store s e'))"
  by (simp add: removeAttribute_def)

lemma attrs_setTabIndex [simp]:
  "attrs (store (setTabIndex e i s) e') = attrs (store s e')"
  by (simp add: setTabIndex_def)

lemma indexOf_notin: "(indexOf xs e = - 1) = (e \<notin> set xs)"
proof (induction xs)
  case Nil
  show ?case by simp
next
  case (Cons x xs)
  have nonneg: "\<And>ys. indexOf ys e \<ge> - 1"
  proof -
    fix ys :: "'a list"
    show "indexOf ys e \<ge> - 1" by (induction ys) (auto simp: Let_def)
  qed
  show ?case using Cons nonneg [of xs] by (auto simp: Let_def)
qed

lemma indexOf_ge: "- 1 \<le> indexOf xs e"
  by (induction xs) (auto simp: Let_def)

lemma splice1_indexOf:
  "e \<in> set xs \<Longrightarrow> splice1 (nat (indexOf xs e)) xs = remove1 e xs"
proof (induction xs)
  case Nil
  then show ?case by simp
next
  case (Cons x xs)
  show ?case
  proof (cases "x = e")
    case True
    then show ?thesis by (simp add: splice1_def)
  next
    case False
    with Cons.prems have mem: "e \<in> set xs" by simp
    then have ne: "indexOf xs e \<noteq> - 1" by (simp add: indexOf_notin)
    with indexOf_ge [of xs e] have pos: "0 \<le> indexOf xs e" by linarith
    then have "nat (indexOf xs e + 1) = Suc (nat (indexOf xs e))" by linarith
    with False ne Cons.IH [OF mem] show ?thesis
      by (simp add: splice1_def Let_def)
  qed
qed

lemma indexOf_nth:
  "distinct xs \<Longrightarrow> i < length xs \<Longrightarrow> indexOf xs (xs ! i) = int i"
proof (induction xs arbitrary: i)
  case Nil
  then show ?case by simp
next
  case (Cons x xs)
  show ?case
  proof (cases i)
    case 0
    then show ?thesis by simp
  next
    case (Suc j)
    with Cons.prems have j: "j < length xs" and d: "distinct xs" and nx: "x \<notin> set xs"
      by simp_all
    from j nx have "x \<noteq> xs ! j" by (metis nth_mem)
    with Suc Cons.IH [OF d j] show ?thesis by (simp add: Let_def)
  qed
qed

lemma selectedOptions_clearSelection:
  "selectedOptions (clearSelection e s) = remove1 e (selectedOptions s)"
  by (simp add: clearSelection_def Let_def indexOf_notin splice1_indexOf remove1_idem)

lemma clearSelection_fields [simp]:
  "isMultiple (clearSelection e s) = isMultiple s"
  "options (clearSelection e s) = options s"
  "inputs (clearSelection e s) = inputs s"
  "isDisabled (clearSelection e s) = isDisabled s"
  "focusedIndex (clearSelection e s) = focusedIndex s"
  "kbSelectMode (clearSelection e s) = kbSelectMode s"
  "hostAttrs (clearSelection e s) = hostAttrs s"
  "triggered (clearSelection e s) = triggered s"
  "docFocus (clearSelection e s) = docFocus s"
  by (simp_all add: clearSelection_def Let_def)

lemma attrs_clearSelection:
  "attrs (store (clearSelection e s) e') =
     (if e' = e then (attrs (store s e))(''selected'' := None, ''aria-selected'' \<mapsto> ''false'')
      else attrs (store s e'))"
  by (simp add: clearSelection_def Let_def)

lemma tabIndex_clearSelection:
  "tabIndex (store (clearSelection e s) e') = tabIndex (store s e')"
  by (simp add: clearSelection_def Let_def setAttribute_def removeAttribute_def)

subsection \<open>What the operations leave unchanged\<close>

lemma clearSelection_frame:
  "\<exists>sel st. clearSelection e s = s\<lparr>selectedOptions := sel, store := st\<rparr>"
proof -
  have "clearSelection e s =
      s\<lparr>selectedOptions := selectedOptions (clearSelection e s),
        store := store (clearSelection e s)\<rparr>"
    by (simp add: clearSelection_def Let_def setAttribute_def removeAttribute_def)
  then show ?thesis by blast
qed

lemma clearAllSelections_unfold:
  "clearAllSelections s =
     (if selectedOptions s = [] then s
      else clearAllSelections
             (clearSelection (last (selectedOptions s))
                (s\<lparr>selectedOptions := butlast (selectedOptions s)\<rparr>)))"
  by (subst clearAllSelections.simps) (simp add: Let_def)

lemma selectedOptions_clearAll [simp]: "selectedOptions (clearAllSelections s) = []"
proof (induction s rule: clearAllSelections.induct)
  case (1 s)
  show ?case
  proof (cases "selectedOptions s = []")
    case True
    then show ?thesis by (subst clearAllSelections_unfold) simp
  next
    case False
    with 1 show ?thesis by (subst clearAllSelections_unfold) simp
  qed
qed

lemma clearAll_frame:
  "\<exists>sel st. clearAllSelections s = s\<lparr>selectedOptions := sel, store := st\<rparr>"
proof (induction s rule: clearAllSelections.induct)
  case (1 s)
  show ?case
  proof (cases "selectedOptions s = []")
    case True
    then have "clearAllSelections s = s\<lparr>selectedOptions := selectedOptions s, store := store s\<rparr>"
      by (subst clearAllSelections_unfold) simp
    then show ?thesis by blast
  next
    case False
    let ?t = "clearSelection (last (selectedOptions s))
                (s\<lparr>selectedOptions := butlast (selectedOptions s)\<rparr>)"
    from False have pos: "0 < length (selectedOptions s)" by simp
    obtain sel st where
      IH: "clearAllSelections ?t = ?t\<lparr>selectedOptions := sel, store := st\<rparr>"
      using 1 [OF pos refl refl] by blast
    obtain a b where "?t = (s\<lparr>selectedOptions := butlast (selectedOptions s)\<rparr>)
        \<lparr>selectedOptions := a, store := b\<rparr>"
      using clearSelection_frame by blast
    then have t: "?t = s\<lparr>selectedOptions := a, store := b\<rparr>" by simp
    have eq: "clearAllSelections s = clearAllSelections ?t"
      using False by (subst clearAllSelections_unfold) simp
    have "clearAllSelections s = s\<lparr>selectedOptions := sel, store := st\<rparr>"
      unfolding eq IH unfolding t by simp
    then show ?thesis by blast
  qed
qed

lemma clearAll_fields [simp]:
  "isMultiple (clearAllSelections s) = isMultiple s"
  "options (clearAllSelections s) = options s"
  "inputs (clearAllSelections s) = inputs s"
  "isDisabled (clearAllSelections s) = isDisabled s"
  "focusedIndex (clearAllSelections s) = focusedIndex s"
  "kbSelectMode (clearAllSelections s) = kbSelectMode s"
  "hostAttrs (clearAllSelections s) = hostAttrs s"
  "triggered (clearAllSelections s) = triggered s"
  "docFocus (clearAllSelections s) = docFocus s"
proof -
  obtain sel st where "clearAllSelections s = s\<lparr>selectedOptions := sel, store := st\<rparr>"
    using clearAll_frame by blast
  then show
    "isMultiple (clearAllSelections s) = isMultiple s"
    "options (clearAllSelections s) = options s"
    "inputs (clearAllSelections s) = inputs s"
    "isDisabled (clearAllSelections s) = isDisabled s"
    "focusedIndex (clearAllSelections s) = focusedIndex s"
    "kbSelectMode (clearAllSelections s) = kbSelectMode s"
    "hostAttrs (clearAllSelections s) = hostAttrs s"
    "triggered (clearAllSelections s) = triggered s"
    "docFocus (clearAllSelections s) = docFocus s"
    by simp_all
qed

lemma attrs_clearAll:
  "attrs (store (clearAllSelections s) e) k =
     (if e \<in> set (selectedOptions s) \<and> k = ''selected'' then None
      else if e \<in> set (selectedOptions s) \<and> k = ''aria-selected'' then Some ''false''
      else attrs (store s e) k)"
proof (induction s rule: clearAllSelections.induct)
  case (1 s)
  show ?case
  proof (cases "selectedOptions s = []")
    case True
    then show ?thesis by (subst clearAllSelections_unfold) simp
  next
    case False
    let ?el = "last (selectedOptions s)"
    let ?ys = "butlast (selectedOptions s)"
    let ?t = "clearSelection ?el (s\<lparr>selectedOptions := ?ys\<rparr>)"
    from False have pos: "0 < length (selectedOptions s)" by simp
    from False have sel: "set (selectedOptions s) = insert ?el (set ?ys)"
      by (metis append_butlast_last_id list.simps(15) rotate1.simps(2) set_rotate1)
    note IH = 1 [OF pos refl refl]
    have eq: "clearAllSelections s = clearAllSelections ?t"
      using False by (subst clearAllSelections_unfold) simp
    show ?thesis
    proof (cases "e = ?el")
      case True
      then show ?thesis
        unfolding eq IH using sel by (simp add: attrs_clearSelection)
    next
      case False
      then have "(e \<in> set (selectedOptions ?t)) = (e \<in> set (selectedOptions s))"
        using sel by (simp add: selectedOptions_clearSelection)
      with False show ?thesis
        unfolding eq IH by (simp add: attrs_clearSelection)
    qed
  qed
qed

lemma tabIndex_clearAll:
  "tabIndex (store (clearAllSelections s) e) = tabIndex (store s e)"
proof (induction s rule: clearAllSelections.induct)
  case (1 s)
  show ?case
  proof (cases "selectedOptions s = []")
    case True
    then show ?thesis by (subst clearAllSelections_unfold) simp
  next
    case False
    with 1 show ?thesis
      by (subst clearAllSelections_unfold) (simp add: tabIndex_clearSelection setTabIndex_def)
  qed
qed

lemma setSelection_fields [simp]:
  "isMultiple (setSelection e s) = isMultiple s"
  "options (setSelection e s) = options s"
  "inputs (setSelection e s) = inputs s"
  "isDisabled (setSelection e s) = isDisabled s"
  "focusedIndex (setSelection e s) = focusedIndex s"
  "kbSelectMode (setSelection e s) = kbSelectMode s"
  "hostAttrs (setSelection e s) = hostAttrs s"
  "triggered (setSelection e s) = triggered s"
  "docFocus (setSelection e s) = docFocus s"
  by (simp_all add: setSelection_def Let_def)

lemma selectedOptions_setSelection:
  "selectedOptions (setSelection e s) =
     (if e \<in> set (selectedOptions s) then selectedOptions s
      else if isMultiple s then selectedOptions s @ [e] else [e])"
  by (simp add: setSelection_def Let_def)

lemma attrs_setSelection:
  "attrs (store (setSelection e s) e') k =
     (if e \<in> set (selectedOptions s) then attrs (store s e') k
      else if e' = e \<and> k = ''selected'' then Some ''''
      else if e' = e \<and> k = ''aria-selected'' then Some ''true''
      else if \<not> isMultiple s \<and> e' \<in> set (selectedOptions s) \<and> k = ''selected'' then None
      else if \<not> isMultiple s \<and> e' \<in> set (selectedOptions s) \<and> k = ''aria-selected''
        then Some ''false''
      else attrs (store s e') k)"
  by (simp add: setSelection_def Let_def attrs_clearAll)

lemma fold_setTabIndex_frame:
  "\<exists>st. fold (\<lambda>option. setTabIndex option i) xs s = s\<lparr>store := st\<rparr>"
proof (induction xs arbitrary: s)
  case Nil
  have "s = s\<lparr>store := store s\<rparr>" by simp
  then show ?case by (metis fold_simps(1))
next
  case (Cons x xs)
  obtain st where "fold (\<lambda>option. setTabIndex option i) xs (setTabIndex x i s) =
      (setTabIndex x i s)\<lparr>store := st\<rparr>"
    using Cons.IH by blast
  then have "fold (\<lambda>option. setTabIndex option i) (x # xs) s = s\<lparr>store := st\<rparr>"
    by (simp add: setTabIndex_def)
  then show ?case by blast
qed

lemma attrs_fold_setTabIndex [simp]:
  "attrs (store (fold (\<lambda>option. setTabIndex option i) xs s) e) = attrs (store s e)"
  by (induction xs arbitrary: s) simp_all

lemma fold_setTabIndex_fields [simp]:
  "isMultiple (fold (\<lambda>option. setTabIndex option i) xs s) = isMultiple s"
  "selectedOptions (fold (\<lambda>option. setTabIndex option i) xs s) = selectedOptions s"
  "options (fold (\<lambda>option. setTabIndex option i) xs s) = options s"
  "inputs (fold (\<lambda>option. setTabIndex option i) xs s) = inputs s"
  "isDisabled (fold (\<lambda>option. setTabIndex option i) xs s) = isDisabled s"
  "focusedIndex (fold (\<lambda>option. setTabIndex option i) xs s) = focusedIndex s"
  "kbSelectMode (fold (\<lambda>option. setTabIndex option i) xs s) = kbSelectMode s"
  "hostAttrs (fold (\<lambda>option. setTabIndex option i) xs s) = hostAttrs s"
  "triggered (fold (\<lambda>option. setTabIndex option i) xs s) = triggered s"
  "docFocus (fold (\<lambda>option. setTabIndex option i) xs s) = docFocus s"
  by (induction xs arbitrary: s) simp_all

lemma updateFocus_fields [simp]:
  "isMultiple (updateFocus s) = isMultiple s"
  "selectedOptions (updateFocus s) = selectedOptions s"
  "options (updateFocus s) = options s"
  "inputs (updateFocus s) = inputs s"
  "isDisabled (updateFocus s) = isDisabled s"
  "kbSelectMode (updateFocus s) = kbSelectMode s"
  "hostAttrs (updateFocus s) = hostAttrs s"
  "triggered (updateFocus s) = triggered s"
  "docFocus (updateFocus s) = docFocus s"
  by (simp_all add: updateFocus_def Let_def split: option.splits)

lemma attrs_updateFocus [simp]:
  "attrs (store (updateFocus s) e) = attrs (store s e)"
  by (simp add: updateFocus_def Let_def split: option.splits)

lemma setInputs_fields [simp]:
  "isMultiple (snd (setInputs s)) = isMultiple s"
  "selectedOptions (snd (setInputs s)) = selectedOptions s"
  "options (snd (setInputs s)) = options s"
  "isDisabled (snd (setInputs s)) = isDisabled s"
  "focusedIndex (snd (setInputs s)) = focusedIndex s"
  "kbSelectMode (snd (setInputs s)) = kbSelectMode s"
  "hostAttrs (snd (setInputs s)) = hostAttrs s"
  "store (snd (setInputs s)) = store s"
  "triggered (snd (setInputs s)) = triggered s"
  "docFocus (snd (setInputs s)) = docFocus s"
  by (simp_all add: setInputs_def Let_def)

subsection \<open>Select, Form Sync and the handlers\<close>

lemma setSelection_single_length:
  "\<not> isMultiple s \<Longrightarrow> length (selectedOptions s) \<le> 1 \<Longrightarrow>
   length (selectedOptions (setSelection e s)) \<le> 1"
  by (simp add: selectedOptions_setSelection)

lemma fold_setSelection_single:
  "\<not> isMultiple s \<Longrightarrow> length (selectedOptions s) \<le> 1 \<Longrightarrow>
   \<not> isMultiple (fold setSelection es s) \<and>
   length (selectedOptions (fold setSelection es s)) \<le> 1"
proof (induction es arbitrary: s)
  case Nil
  then show ?case by simp
next
  case (Cons e es)
  have "\<not> isMultiple (setSelection e s)" using Cons.prems by simp
  moreover have "length (selectedOptions (setSelection e s)) \<le> 1"
    using Cons.prems by (rule setSelection_single_length)
  ultimately show ?case using Cons.IH by simp
qed

lemma fold_setInputs_step:
  "fold (setInputs_step s n f) xs acc =
     (fst acc @ map (\<lambda>option. \<lparr>input_type = ''hidden'', input_name = n,
                       input_value = js_string (getAttribute s option ''option''),
                       input_form = (if truthy f then f else None)\<rparr>)
                (filter (\<lambda>option. \<not> hasAttribute s option ''disabled'') xs),
      snd acc @ map (\<lambda>option. getAttribute s option ''option'')
                (filter (\<lambda>option. \<not> hasAttribute s option ''disabled'') xs))"
  by (induction xs arbitrary: acc) (simp_all add: setInputs_step_def Let_def)

lemma setInputs_inert:
  "\<not> truthy (hostAttrs s ''name'') \<or> isDisabled s \<Longrightarrow> setInputs s = ([], s)"
  by (auto simp add: setInputs_def Let_def)

lemma external_clear_general:
  "selectedOptions (selectedAttributeMutated Null s) = [] \<and>
   inputs (selectedAttributeMutated Null s) = inputs s"
  by (simp add: selectedAttributeMutated_def)

lemma keyDown_no_options:
  "options s = [] \<Longrightarrow> key_dir bodyDir k \<noteq> 0 \<Longrightarrow> keyDownHandler bodyDir k s = Inl TypeError"
proof -
  assume e: "options s = []" and d: "key_dir bodyDir k \<noteq> 0"
  have "nth_opt (options s) (focusedIndex s) = None"
    using e by (auto simp add: nth_opt_def)
  then show ?thesis using d by (simp add: keyDownHandler_def Let_def)
qed

subsection \<open>Keyboard navigation\<close>

text \<open>
  Down and, in a left-to-right document, right are the next direction; up and, in a
  left-to-right document, left are the previous one; in a right-to-left document left and
  right change places. No other key has a direction.
\<close>

lemma key_dir_next_previous:
  "key_dir bodyDir DOWN_ARROW = 1"
  "key_dir bodyDir UP_ARROW = - 1"
  "key_dir bodyDir RIGHT_ARROW = (if bodyDir = Some ''rtl'' then - 1 else 1)"
  "key_dir bodyDir LEFT_ARROW = (if bodyDir = Some ''rtl'' then 1 else - 1)"
  "key_dir bodyDir OTHER_KEY = 0"
  "key_dir bodyDir k \<in> {- 1, 0, 1}"
  by (cases k; simp add: key_dir_def)+

lemma js_rem_normalized:
  assumes n: "0 < n" and r: "js_rem a n = Some r"
  shows "(if r < 0 then r + n else r) = a mod n"
proof (cases "0 \<le> a")
  case True
  then have "sgn a * (\<bar>a\<bar> mod \<bar>n\<bar>) = a mod n"
    using n by (cases "a = 0") simp_all
  with r n have "r = a mod n" by (simp add: js_rem_def)
  moreover have "0 \<le> a mod n" using n by simp
  ultimately show ?thesis by simp
next
  case False
  then have neg: "a < 0" by simp
  with r n have rdef: "r = - ((- a) mod n)" by (simp add: js_rem_def)
  show ?thesis
  proof (cases "a mod n = 0")
    case True
    then have "(- a) mod n = 0" by (simp add: zmod_zminus1_eq_if)
    with rdef True show ?thesis by simp
  next
    case False
    then have m: "(- a) mod n = n - a mod n" by (simp add: zmod_zminus1_eq_if)
    have "a mod n < n" using n by simp
    with rdef m show ?thesis by simp
  qed
qed

lemma tryFocus_fields [simp]:
  "isMultiple (tryFocus e s) = isMultiple s"
  "selectedOptions (tryFocus e s) = selectedOptions s"
  "options (tryFocus e s) = options s"
  "inputs (tryFocus e s) = inputs s"
  "isDisabled (tryFocus e s) = isDisabled s"
  "focusedIndex (tryFocus e s) = focusedIndex s"
  "kbSelectMode (tryFocus e s) = kbSelectMode s"
  "hostAttrs (tryFocus e s) = hostAttrs s"
  "store (tryFocus e s) = store s"
  "triggered (tryFocus e s) = triggered s"
  by (simp_all add: tryFocus_def)

lemma focusedIndex_updateFocus:
  "focusedIndex (updateFocus s) =
     (if kbSelectMode s = NONE then focusedIndex s
      else (case (if isMultiple s then nth_opt (options s) 0
                  else (case nth_opt (selectedOptions s) 0 of
                          Some e \<Rightarrow> Some e
                        | None \<Rightarrow> nth_opt (options s) 0)) of
              None \<Rightarrow> focusedIndex s
            | Some e \<Rightarrow> indexOf (options s) e))"
  by (simp add: updateFocus_def Let_def split: option.splits)

lemma onOptionPicked_fields [simp]:
  "isMultiple (onOptionPicked el s) = isMultiple s"
  "options (onOptionPicked el s) = options s"
  "isDisabled (onOptionPicked el s) = isDisabled s"
  "kbSelectMode (onOptionPicked el s) = kbSelectMode s"
  "hostAttrs (onOptionPicked el s) = hostAttrs s"
  "docFocus (onOptionPicked el s) = docFocus s"
  by (simp_all add: onOptionPicked_def Let_def)

lemma onOptionPicked_focus:
  assumes single: "\<not> isMultiple s"
    and dist: "distinct (options s)"
    and one: "length (selectedOptions s) \<le> 1"
    and i: "i < length (options s)"
    and f: "focusedIndex s = int i"
  shows "focusedIndex (onOptionPicked (options s ! i) s) = int i \<and>
         length (selectedOptions (onOptionPicked (options s ! i) s)) \<le> 1"
proof -
  let ?el = "options s ! i"
  show ?thesis
  proof (cases "hasAttribute s ?el ''disabled'' \<or> hasAttribute s ?el ''selected''")
    case True
    then have "onOptionPicked ?el s = s"
      using single by (auto simp add: onOptionPicked_def)
    then show ?thesis using f one by simp
  next
    case False
    let ?t = "snd (setInputs (setSelection ?el s))"
    have sel: "selectedOptions (setSelection ?el s) = [?el]"
    proof (cases "?el \<in> set (selectedOptions s)")
      case True
      with one have "selectedOptions s = [?el]"
        by (cases "selectedOptions s") auto
      with True show ?thesis by (simp add: selectedOptions_setSelection)
    next
      case False
      with single show ?thesis by (simp add: selectedOptions_setSelection)
    qed
    have idx: "indexOf (options s) ?el = int i"
      using dist i by (rule indexOf_nth)
    have foc: "focusedIndex (updateFocus ?t) = int i"
      using single sel idx f by (simp add: focusedIndex_updateFocus nth_opt_def)
    have "focusedIndex (onOptionPicked ?el s) = focusedIndex (updateFocus ?t)"
      using False by (simp add: onOptionPicked_def Let_def)
    moreover have "selectedOptions (onOptionPicked ?el s) = selectedOptions ?t"
      using False by (simp add: onOptionPicked_def Let_def)
    ultimately show ?thesis using foc sel by simp
  qed
qed

lemma keyDown_step:
  assumes dir: "key_dir bodyDir k \<noteq> 0"
    and lo: "0 \<le> focusedIndex s"
    and hi: "focusedIndex s < int (length (options s))"
    and sm: "kbSelectMode s = SELECT \<longrightarrow>
               \<not> isMultiple s \<and> distinct (options s) \<and> length (selectedOptions s) \<le> 1"
  shows "\<exists>s'. keyDownHandler bodyDir k s = Inr s' \<and>
           focusedIndex s' = (focusedIndex s + key_dir bodyDir k) mod int (length (options s)) \<and>
           options s' = options s \<and> kbSelectMode s' = kbSelectMode s \<and>
           isMultiple s' = isMultiple s \<and>
           (kbSelectMode s = SELECT \<longrightarrow> length (selectedOptions s') \<le> 1)"
proof -
  let ?n = "int (length (options s))"
  let ?d = "key_dir bodyDir k"
  let ?g = "(focusedIndex s + ?d) mod ?n"
  let ?cur = "options s ! nat (focusedIndex s)"
  let ?new = "options s ! nat ?g"
  from lo hi have n: "0 < ?n" by linarith
  have cur: "nth_opt (options s) (focusedIndex s) = Some ?cur"
    using lo hi by (simp add: nth_opt_def)
  obtain r where r: "js_rem (focusedIndex s + ?d) ?n = Some r"
    using n by (simp add: js_rem_def)
  have norm: "(if r < 0 then r + ?n else r) = ?g"
    using n r by (rule js_rem_normalized)
  have g0: "0 \<le> ?g" and g1: "?g < ?n" using n by simp_all
  have new: "nth_opt (options s) ?g = Some ?new"
    using g0 g1 by (simp add: nth_opt_def)
  let ?s1 = "setTabIndex ?cur (- 1) s"
  let ?s3 = "?s1\<lparr>focusedIndex := ?g\<rparr>"
  let ?s4 = "tryFocus ?new (setTabIndex ?new 0 ?s3)"
  have kd: "keyDownHandler bodyDir k s =
      (if kbSelectMode s = SELECT then Inr (onOptionPicked ?new ?s4) else Inr ?s4)"
  proof (cases "r < 0")
    case True
    with norm have g: "?g = r + ?n" by simp
    have new': "nth_opt (options s) (r + ?n) = Some (options s ! nat (r + ?n))"
      using new unfolding g .
    show ?thesis
      unfolding keyDownHandler_def Let_def g
      using dir cur r True new' by simp
  next
    case False
    with norm have g: "?g = r" by simp
    have new': "nth_opt (options s) r = Some (options s ! nat r)"
      using new unfolding g .
    show ?thesis
      unfolding keyDownHandler_def Let_def g
      using dir cur r False new' by simp
  qed
  have s4f: "focusedIndex ?s4 = ?g" "options ?s4 = options s"
    "kbSelectMode ?s4 = kbSelectMode s" "isMultiple ?s4 = isMultiple s"
    "selectedOptions ?s4 = selectedOptions s"
    by simp_all
  show ?thesis
  proof (cases "kbSelectMode s = SELECT")
    case False
    with kd s4f show ?thesis by simp
  next
    case True
    with sm have single: "\<not> isMultiple ?s4" and dist: "distinct (options ?s4)"
      and one: "length (selectedOptions ?s4) \<le> 1"
      by (simp_all add: s4f)
    have i: "nat ?g < length (options ?s4)" using g0 g1 by (simp add: s4f)
    have f: "focusedIndex ?s4 = int (nat ?g)" using g0 by (simp add: s4f)
    have el: "options ?s4 ! nat ?g = ?new" by (simp add: s4f)
    have "focusedIndex (onOptionPicked (options ?s4 ! nat ?g) ?s4) = int (nat ?g) \<and>
          length (selectedOptions (onOptionPicked (options ?s4 ! nat ?g) ?s4)) \<le> 1"
      using single dist one i f by (rule onOptionPicked_focus)
    then have "focusedIndex (onOptionPicked ?new ?s4) = ?g \<and>
          length (selectedOptions (onOptionPicked ?new ?s4)) \<le> 1"
      unfolding el using g0 by simp
    with kd True s4f show ?thesis by simp
  qed
qed

lemma press_focus:
  assumes dir: "key_dir bodyDir k \<noteq> 0"
  shows "0 \<le> focusedIndex s \<Longrightarrow> focusedIndex s < int (length (options s)) \<Longrightarrow>
     (kbSelectMode s = SELECT \<longrightarrow>
        \<not> isMultiple s \<and> distinct (options s) \<and> length (selectedOptions s) \<le> 1) \<Longrightarrow>
     \<exists>s'. press m bodyDir k s = Inr s' \<and>
       focusedIndex s' =
         (focusedIndex s + int m * key_dir bodyDir k) mod int (length (options s))"
proof (induction m arbitrary: s)
  case 0
  then show ?case by simp
next
  case (Suc m)
  let ?n = "int (length (options s))"
  let ?d = "key_dir bodyDir k"
  from Suc.prems have n: "0 < ?n" by linarith
  obtain s1 where s1: "keyDownHandler bodyDir k s = Inr s1"
    and f1: "focusedIndex s1 = (focusedIndex s + ?d) mod ?n"
    and o1: "options s1 = options s" and k1: "kbSelectMode s1 = kbSelectMode s"
    and m1: "isMultiple s1 = isMultiple s"
    and l1: "kbSelectMode s = SELECT \<longrightarrow> length (selectedOptions s1) \<le> 1"
    using keyDown_step [OF dir Suc.prems] by blast
  have lo: "0 \<le> focusedIndex s1" and hi: "focusedIndex s1 < int (length (options s1))"
    using n by (simp_all add: f1 o1)
  have sm: "kbSelectMode s1 = SELECT \<longrightarrow>
      \<not> isMultiple s1 \<and> distinct (options s1) \<and> length (selectedOptions s1) \<le> 1"
    using Suc.prems(3) l1 by (simp add: o1 k1 m1)
  obtain s' where p: "press m bodyDir k s1 = Inr s'"
    and f': "focusedIndex s' = (focusedIndex s1 + int m * ?d) mod int (length (options s1))"
    using Suc.IH [OF lo hi sm] by blast
  have "((focusedIndex s + ?d) mod ?n + int m * ?d) mod ?n =
        (focusedIndex s + ?d + int m * ?d) mod ?n"
    by (rule mod_add_left_eq)
  also have "focusedIndex s + ?d + int m * ?d = focusedIndex s + int (Suc m) * ?d"
    by (simp add: algebra_simps)
  finally have "((focusedIndex s + ?d) mod ?n + int m * ?d) mod ?n =
        (focusedIndex s + int (Suc m) * ?d) mod ?n" .
  with f' have "focusedIndex s' = (focusedIndex s + int (Suc m) * ?d) mod ?n"
    by (simp add: f1 o1)
  moreover have "press (Suc m) bodyDir k s = Inr s'" using s1 p by simp
  ultimately show ?case by blast
qed

subsection \<open>Initialization\<close>

lemma init_step_unfold:
  "init_step x t =
     (let s2 = (if hasAttribute t x ''disabled''
                then setAttribute x ''aria-disabled'' ''true'' (setAttribute x ''role'' ''option'' t)
                else setAttribute x ''role'' ''option'' t);
          s3 = (if hasAttribute t x ''selected'' then setSelection x s2 else clearSelection x s2)
      in (setTabIndex x 0 s3)\<lparr>options := options t @ [x]\<rparr>)"
proof -
  have "options (setSelection x t') = options t'" "options (clearSelection x t') = options t'"
    for t' by simp_all
  then show ?thesis
    by (simp add: init_step_def Let_def hasAttribute_def)
qed

lemma init_step_pre:
  "selectedOptions (if hasAttribute t x ''disabled''
      then setAttribute x ''aria-disabled'' ''true'' (setAttribute x ''role'' ''option'' t)
      else setAttribute x ''role'' ''option'' t) = selectedOptions t"
  "isMultiple (if hasAttribute t x ''disabled''
      then setAttribute x ''aria-disabled'' ''true'' (setAttribute x ''role'' ''option'' t)
      else setAttribute x ''role'' ''option'' t) = isMultiple t"
  "attrs (store (if hasAttribute t x ''disabled''
      then setAttribute x ''aria-disabled'' ''true'' (setAttribute x ''role'' ''option'' t)
      else setAttribute x ''role'' ''option'' t) e) ''selected'' = attrs (store t e) ''selected''"
  by simp_all

lemma selectedOptions_init_step:
  "selectedOptions (init_step x t) =
     (if hasAttribute t x ''selected''
      then (if x \<in> set (selectedOptions t) then selectedOptions t
            else if isMultiple t then selectedOptions t @ [x] else [x])
      else remove1 x (selectedOptions t))"
  unfolding init_step_unfold Let_def
  by (cases "hasAttribute t x ''selected''")
     (simp_all add: selectedOptions_setSelection selectedOptions_clearSelection
        init_step_pre del: if_split cong: if_cong)

lemma marker_init_step:
  "hasAttribute (init_step x t) e ''selected'' =
     (if hasAttribute t x ''selected''
      then (if x \<in> set (selectedOptions t) then hasAttribute t e ''selected''
            else if e = x then True
            else if \<not> isMultiple t \<and> e \<in> set (selectedOptions t) then False
            else hasAttribute t e ''selected'')
      else (if e = x then False else hasAttribute t e ''selected''))"
proof (cases "hasAttribute t x ''selected''")
  case True
  then show ?thesis
    unfolding init_step_unfold Let_def hasAttribute_def
    by (simp add: attrs_setSelection init_step_pre [unfolded hasAttribute_def])
next
  case False
  then show ?thesis
    unfolding init_step_unfold Let_def hasAttribute_def
    by (simp add: attrs_clearSelection init_step_pre [unfolded hasAttribute_def])
qed

lemma isMultiple_init_step [simp]: "isMultiple (init_step x t) = isMultiple t"
  by (simp add: init_step_def Let_def)

lemma options_init_step [simp]: "options (init_step x t) = options t @ [x]"
  by (simp add: init_step_def Let_def)

lemma fold_init_step_single:
  assumes single: "\<not> isMultiple s" and empty: "selectedOptions s = []"
  shows "distinct xs \<Longrightarrow>
     \<not> isMultiple (fold init_step xs s) \<and>
     selectedOptions (fold init_step xs s) =
       (if filter (\<lambda>e. hasAttribute s e ''selected'') xs = [] then []
        else [last (filter (\<lambda>e. hasAttribute s e ''selected'') xs)]) \<and>
     (\<forall>e. hasAttribute (fold init_step xs s) e ''selected'' =
        (if e \<in> set xs then e \<in> set (selectedOptions (fold init_step xs s))
         else hasAttribute s e ''selected''))"
proof (induction xs rule: rev_induct)
  case Nil
  show ?case using single empty by simp
next
  case (snoc x xs)
  let ?t = "fold init_step xs s"
  let ?m = "filter (\<lambda>e. hasAttribute s e ''selected'') xs"
  from snoc.prems have d: "distinct xs" and nx: "x \<notin> set xs" by simp_all
  from snoc.IH [OF d] have m: "\<not> isMultiple ?t"
    and sel: "selectedOptions ?t = (if ?m = [] then [] else [last ?m])"
    and mk: "\<And>e. hasAttribute ?t e ''selected'' =
        (if e \<in> set xs then e \<in> set (selectedOptions ?t) else hasAttribute s e ''selected'')"
    by simp_all
  have sub: "set (selectedOptions ?t) \<subseteq> set xs"
  proof (cases "?m = []")
    case True
    with sel show ?thesis by simp
  next
    case False
    then have "last ?m \<in> set ?m" by (rule last_in_set)
    then have "last ?m \<in> set xs" by simp
    with sel False show ?thesis by simp
  qed
  with nx have xsel: "x \<notin> set (selectedOptions ?t)" by blast
  have mx: "hasAttribute ?t x ''selected'' = hasAttribute s x ''selected''"
    using mk [of x] nx by simp
  have step: "fold init_step (xs @ [x]) s = init_step x ?t" by simp
  show ?case
  proof (cases "hasAttribute s x ''selected''")
    case True
    have s': "selectedOptions (init_step x ?t) = [x]"
      using True mx xsel m by (simp add: selectedOptions_init_step)
    have mk': "\<And>e. hasAttribute (init_step x ?t) e ''selected'' =
        (if e = x then True
         else if e \<in> set (selectedOptions ?t) then False
         else hasAttribute ?t e ''selected'')"
      using True mx xsel m by (simp add: marker_init_step)
    have "\<And>e. hasAttribute (init_step x ?t) e ''selected'' =
        (if e \<in> set (xs @ [x]) then e \<in> set [x] else hasAttribute s e ''selected'')"
      using sub by (auto simp add: mk' mk)
    then show ?thesis
      unfolding step using True m s' by simp
  next
    case False
    have s': "selectedOptions (init_step x ?t) = selectedOptions ?t"
      using False mx xsel by (simp add: selectedOptions_init_step remove1_idem)
    have mk': "\<And>e. hasAttribute (init_step x ?t) e ''selected'' =
        (if e = x then False else hasAttribute ?t e ''selected'')"
      using False mx by (simp add: marker_init_step)
    have "\<And>e. hasAttribute (init_step x ?t) e ''selected'' =
        (if e \<in> set (xs @ [x]) then e \<in> set (selectedOptions ?t)
         else hasAttribute s e ''selected'')"
      using xsel by (auto simp add: mk' mk)
    then show ?thesis
      unfolding step using False m s' sel by simp
  qed
qed

lemma init_selected:
  "selectedOptions (init els s) = selectedOptions (fold init_step els s)"
  "hasAttribute (init els s) e k = hasAttribute (fold init_step els s) e k"
  by (simp_all add: init_def hasAttribute_def)

subsection \<open>The built widget\<close>

lemma options_fold_init_step: "options (fold init_step els s) = options s @ els"
  by (induction els arbitrary: s) simp_all

lemma isMultiple_fold_init_step: "isMultiple (fold init_step els s) = isMultiple s"
  by (induction els arbitrary: s) simp_all

lemma init_fields:
  "options (init els s) = options s @ els"
  "isMultiple (init els s) = isMultiple s"
  "kbSelectMode (init els s) = kbSelectMode s"
proof -
  have "kbSelectMode (fold init_step els t) = kbSelectMode t" for t
    by (induction els arbitrary: t) (simp_all add: init_step_unfold Let_def)
  then show "options (init els s) = options s @ els" "isMultiple (init els s) = isMultiple s"
    "kbSelectMode (init els s) = kbSelectMode s"
    by (simp_all add: init_def options_fold_init_step isMultiple_fold_init_step)
qed

lemma buildCallback_established:
  assumes b: "buildCallback els (constructor host st) = Inr s" and d: "distinct els"
  shows "options s = els \<and> (kbSelectMode s = SELECT \<longrightarrow> \<not> isMultiple s) \<and>
         (\<not> isMultiple s \<longrightarrow> length (selectedOptions s) \<le> 1)"
proof -
  obtain s0 where s: "s = init els s0" and o0: "options s0 = []"
    and l0: "selectedOptions s0 = []"
    and km: "kbSelectMode s0 = SELECT \<longrightarrow> \<not> isMultiple s0"
    using b
    by (auto simp add: buildCallback_def constructor_def Let_def
        split: option.splits if_splits)
  have one: "\<not> isMultiple s0 \<Longrightarrow> length (selectedOptions (init els s0)) \<le> 1"
    using fold_init_step_single [OF _ l0 d] by (simp add: init_selected)
  show ?thesis
    unfolding s using o0 km one by (simp add: init_fields)
qed

section \<open>The claims\<close>

text \<open>
  C1. Single-select exclusivity. In a widget with \<open>isMultiple\<close> false whose
  \<open>selectedOptions\<close> holds at most one element (the constructor leaves it empty, and
  \<open>buildCallback_established\<close> shows it for every built widget), after each operation of
  every sequence \<open>es\<close> of Select operations, that is after the first \<open>k\<close> of them for
  every \<open>k\<close> up to the length of \<open>es\<close>, \<open>selectedOptions\<close> has length at most 1.
\<close>

theorem single_select_exclusivity:
  assumes "\<not> isMultiple s" and "length (selectedOptions s) \<le> 1" and "k \<le> length es"
  shows "length (selectedOptions (fold setSelection (take k es) s)) \<le> 1"
  using assms(1,2) fold_setSelection_single by blast

theorem single_select_exclusivity_witness:
  "\<not> isMultiple demo_new \<and> length (selectedOptions demo_new) \<le> 1 \<and>
   (3::nat) \<le> length [0, 1, 0 :: nat] \<and>
   length (selectedOptions (fold setSelection (take 3 [0, 1, 0]) demo_new)) \<le> 1"
proof -
  have h1: "\<not> isMultiple demo_new" by code_simp
  have h2: "length (selectedOptions demo_new) \<le> 1" by code_simp
  have h3: "(3::nat) \<le> length [0, 1, 0 :: nat]" by simp
  show ?thesis using h1 h2 h3 single_select_exclusivity [OF h1 h2 h3] by blast
qed

text \<open>
  C2. External clear. For every state, pushing a null selection empties
  \<open>selectedOptions\<close> and leaves \<open>inputs\<close> as they were (\<open>external_clear_general\<close>):
  \<open>selectedAttributeMutated_\<close> returns after \<open>clearAllSelections_\<close>, before the call of
  \<open>setInputs_\<close> that the other branch ends with. In the multi-select widget named
  \<open>choice\<close> built over the two selected options A and D, the two hidden inputs are
  still there after the null selection.
\<close>

theorem external_clear_keeps_inputs:
  "length (selectedOptions demo_pair) = 2 \<and> length (inputs demo_pair) = 2 \<and>
   length (selectedOptions (selectedAttributeMutated Null demo_pair)) = 0 \<and>
   length (inputs (selectedAttributeMutated Null demo_pair)) = 2"
  by code_simp

text \<open>
  C3. Navigation without options. In the widget built with
  \<open>keyboard-select-mode=focus\<close> over no option, the down arrow raises a TypeError:
  \<open>options_[focusedIndex_]\<close> is \<open>undefined\<close> and the handler writes its \<open>tabIndex\<close>
  with no guard. \<open>keyDown_no_options\<close> is the same for every state without options and
  every navigation key.
\<close>

theorem navigation_without_options_raises:
  "options demo_empty = [] \<and> kbSelectMode demo_empty = FOCUS \<and>
   keyDownHandler None DOWN_ARROW demo_empty = Inl TypeError"
proof -
  have o: "options demo_empty = []" by code_simp
  have k: "kbSelectMode demo_empty = FOCUS" by code_simp
  have d: "key_dir None DOWN_ARROW \<noteq> 0" by code_simp
  show ?thesis using o k keyDown_no_options [OF o d] by blast
qed

text \<open>
  C4. Wraparound navigation. Let the focused index lie inside \<open>options\<close> (which are then
  not empty), and let the key be a navigation key, with direction \<open>key_dir bodyDir k\<close>, 1
  for next and -1 for previous. Then one key press returns a state whose focused index is
  \<open>(focusedIndex + dir) mod n\<close>, inside \<open>[0, n)\<close>, for \<open>n\<close> the number of options, and
  \<open>n\<close> presses of that key return a state whose focused index is the starting one. In
  the mode SELECT the handler also runs Option Picked, which recomputes the focus; there
  the widget is taken as \<open>buildCallback\<close> leaves it: single-select, the options distinct,
  at most one of them selected (\<open>buildCallback_established\<close>).
\<close>

theorem wraparound_navigation:
  assumes "key_dir bodyDir k \<noteq> 0"
    and "0 \<le> focusedIndex s" and "focusedIndex s < int (length (options s))"
    and "kbSelectMode s = SELECT \<longrightarrow>
           \<not> isMultiple s \<and> distinct (options s) \<and> length (selectedOptions s) \<le> 1"
  shows "\<exists>s1 sn. keyDownHandler bodyDir k s = Inr s1 \<and>
           focusedIndex s1 = (focusedIndex s + key_dir bodyDir k) mod int (length (options s)) \<and>
           0 \<le> focusedIndex s1 \<and> focusedIndex s1 < int (length (options s)) \<and>
           press (length (options s)) bodyDir k s = Inr sn \<and>
           focusedIndex sn = focusedIndex s"
proof -
  let ?n = "int (length (options s))"
  from assms have n: "0 < ?n" by linarith
  obtain s1 where s1: "keyDownHandler bodyDir k s = Inr s1"
    and f1: "focusedIndex s1 = (focusedIndex s + key_dir bodyDir k) mod ?n"
    using keyDown_step [OF assms] by blast
  obtain sn where sn: "press (length (options s)) bodyDir k s = Inr sn"
    and fn: "focusedIndex sn = (focusedIndex s + ?n * key_dir bodyDir k) mod ?n"
    using press_focus [OF assms] by blast
  have "(focusedIndex s + ?n * key_dir bodyDir k) mod ?n = focusedIndex s"
    using assms(2,3) by simp
  with fn have "focusedIndex sn = focusedIndex s" by simp
  moreover have "0 \<le> focusedIndex s1 \<and> focusedIndex s1 < ?n" using n f1 by simp
  ultimately show ?thesis using s1 f1 sn by blast
qed

theorem wraparound_navigation_witness:
  "key_dir None DOWN_ARROW \<noteq> 0 \<and> key_dir None UP_ARROW \<noteq> 0 \<and>
   0 \<le> focusedIndex demo_single \<and>
   focusedIndex demo_single < int (length (options demo_single)) \<and>
   kbSelectMode demo_single = SELECT \<and> \<not> isMultiple demo_single \<and>
   distinct (options demo_single) \<and> length (selectedOptions demo_single) \<le> 1 \<and>
   (\<exists>s1 sn. keyDownHandler None DOWN_ARROW demo_single = Inr s1 \<and> focusedIndex s1 = 0 \<and>
      press 4 None DOWN_ARROW demo_single = Inr sn \<and> focusedIndex sn = 3) \<and>
   (\<exists>s1 sn. keyDownHandler None UP_ARROW demo_single = Inr s1 \<and> focusedIndex s1 = 2 \<and>
      press 4 None UP_ARROW demo_single = Inr sn \<and> focusedIndex sn = 3)"
proof -
  have d: "key_dir None DOWN_ARROW \<noteq> 0" by code_simp
  have dv: "key_dir None DOWN_ARROW = 1" by code_simp
  have u: "key_dir None UP_ARROW \<noteq> 0" by code_simp
  have uv: "key_dir None UP_ARROW = - 1" by code_simp
  have f: "focusedIndex demo_single = 3" by code_simp
  have o: "options demo_single = [0, 1, 2, 3]" by code_simp
  have k: "kbSelectMode demo_single = SELECT" by code_simp
  have m: "\<not> isMultiple demo_single" by code_simp
  have l: "selectedOptions demo_single = [3]" by code_simp
  have lo: "0 \<le> focusedIndex demo_single" by (simp add: f)
  have hi: "focusedIndex demo_single < int (length (options demo_single))" by (simp add: f o)
  have ds: "distinct (options demo_single)" by (simp add: o)
  have le: "length (selectedOptions demo_single) \<le> 1" by (simp add: l)
  have n: "length (options demo_single) = 4" by (simp add: o)
  have sm: "kbSelectMode demo_single = SELECT \<longrightarrow>
      \<not> isMultiple demo_single \<and> distinct (options demo_single) \<and>
      length (selectedOptions demo_single) \<le> 1"
    using m ds le by blast
  have fwd: "\<exists>s1 sn. keyDownHandler None DOWN_ARROW demo_single = Inr s1 \<and>
      focusedIndex s1 = 0 \<and> press 4 None DOWN_ARROW demo_single = Inr sn \<and> focusedIndex sn = 3"
  proof -
    obtain s1 sn where s1: "keyDownHandler None DOWN_ARROW demo_single = Inr s1"
      and f1: "focusedIndex s1 =
        (focusedIndex demo_single + key_dir None DOWN_ARROW)
          mod int (length (options demo_single))"
      and sn: "press (length (options demo_single)) None DOWN_ARROW demo_single = Inr sn"
      and fn: "focusedIndex sn = focusedIndex demo_single"
      using wraparound_navigation [OF d lo hi sm] by blast
    have a: "focusedIndex s1 = 0" unfolding f1 dv f o by simp
    have b: "press 4 None DOWN_ARROW demo_single = Inr sn" using sn n by (simp only:)
    have c: "focusedIndex sn = 3" using fn by (simp only: f)
    show ?thesis using s1 a b c by blast
  qed
  have bwd: "\<exists>s1 sn. keyDownHandler None UP_ARROW demo_single = Inr s1 \<and>
      focusedIndex s1 = 2 \<and> press 4 None UP_ARROW demo_single = Inr sn \<and> focusedIndex sn = 3"
  proof -
    obtain s1 sn where s1: "keyDownHandler None UP_ARROW demo_single = Inr s1"
      and f1: "focusedIndex s1 =
        (focusedIndex demo_single + key_dir None UP_ARROW)
          mod int (length (options demo_single))"
      and sn: "press (length (options demo_single)) None UP_ARROW demo_single = Inr sn"
      and fn: "focusedIndex sn = focusedIndex demo_single"
      using wraparound_navigation [OF u lo hi sm] by blast
    have a: "focusedIndex s1 = 2" unfolding f1 uv f o by simp
    have b: "press 4 None UP_ARROW demo_single = Inr sn" using sn n by (simp only:)
    have c: "focusedIndex sn = 3" using fn by (simp only: f)
    show ?thesis using s1 a b c by blast
  qed
  show ?thesis using d u lo hi k m ds le fwd bwd by blast
qed

text \<open>
  C5. Form Sync. Without a form-field name (the \<open>name\<close> attribute of the host absent or
  empty), or in a disabled widget, \<open>setInputs_\<close> returns the empty list and changes
  nothing. Otherwise it returns the values of the selected options that do not carry
  \<open>disabled\<close>, in the order of \<open>selectedOptions\<close>, and \<open>inputs\<close> becomes one hidden
  input for each of them, in that order, so that there are as many inputs as selected
  options without \<open>disabled\<close>.
\<close>

theorem form_sync:
  "(\<not> truthy (hostAttrs s ''name'') \<or> isDisabled s \<longrightarrow> setInputs s = ([], s)) \<and>
   (truthy (hostAttrs s ''name'') \<and> \<not> isDisabled s \<longrightarrow>
      fst (setInputs s) =
        map (\<lambda>option. getAttribute s option ''option'')
          (filter (\<lambda>option. \<not> hasAttribute s option ''disabled'') (selectedOptions s)) \<and>
      inputs (snd (setInputs s)) =
        map (\<lambda>option. \<lparr>input_type = ''hidden'',
                         input_name = js_string (hostAttrs s ''name''),
                         input_value = js_string (getAttribute s option ''option''),
                         input_form = (if truthy (hostAttrs s ''form'')
                                       then hostAttrs s ''form'' else None)\<rparr>)
          (filter (\<lambda>option. \<not> hasAttribute s option ''disabled'') (selectedOptions s)) \<and>
      length (inputs (snd (setInputs s))) =
        length (filter (\<lambda>option. \<not> hasAttribute s option ''disabled'') (selectedOptions s)))"
  by (simp add: setInputs_def Let_def fold_setInputs_step)

theorem form_sync_witness:
  "\<not> truthy (hostAttrs demo_unnamed ''name'') \<and>
   setInputs demo_unnamed = ([], demo_unnamed) \<and>
   truthy (hostAttrs demo_multi ''name'') \<and> \<not> isDisabled demo_multi \<and>
   selectedOptions demo_multi = [0, 1, 3] \<and>
   fst (setInputs demo_multi) = [Some ''A'', Some ''D''] \<and>
   length (inputs (snd (setInputs demo_multi))) = 2"
proof -
  have u: "\<not> truthy (hostAttrs demo_unnamed ''name'')" by code_simp
  have n: "truthy (hostAttrs demo_multi ''name'')" by code_simp
  have e: "\<not> isDisabled demo_multi" by code_simp
  have l: "selectedOptions demo_multi = [0, 1, 3]" by code_simp
  have dis: "\<not> hasAttribute demo_multi 0 ''disabled''" "hasAttribute demo_multi 1 ''disabled''"
    "\<not> hasAttribute demo_multi 3 ''disabled''"
    by code_simp+
  have v: "getAttribute demo_multi 0 ''option'' = Some ''A''"
    "getAttribute demo_multi 3 ''option'' = Some ''D''"
    by code_simp+
  have a: "setInputs demo_unnamed = ([], demo_unnamed)"
    using form_sync [of demo_unnamed] u by blast
  have ne: "truthy (hostAttrs demo_multi ''name'') \<and> \<not> isDisabled demo_multi"
    using n e by blast
  from form_sync [of demo_multi, THEN conjunct2, rule_format, OF ne]
  have b: "fst (setInputs demo_multi) = [Some ''A'', Some ''D''] \<and>
      length (inputs (snd (setInputs demo_multi))) = 2"
    unfolding l using dis(2) by (simp add: dis v)
  show ?thesis using u a n e l b by blast
qed

text \<open>
  C6. In a single-select widget, Option Picked on an option that is already selected
  changes nothing: the returned state is the one given, so \<open>selectedOptions\<close>, the hidden
  inputs, the focused index and the trace of dispatched events are the same. The option is
  a member of \<open>selectedOptions\<close>, and every member carries the \<open>selected\<close> marker, which
  is what the handler reads.
\<close>

theorem single_select_repick_noop:
  assumes "\<not> isMultiple s"
    and "el \<in> set (selectedOptions s)"
    and "\<forall>e\<in>set (selectedOptions s). hasAttribute s e ''selected''"
  shows "onOptionPicked el s = s \<and>
         selectedOptions (onOptionPicked el s) = selectedOptions s \<and>
         inputs (onOptionPicked el s) = inputs s \<and>
         focusedIndex (onOptionPicked el s) = focusedIndex s \<and>
         triggered (onOptionPicked el s) = triggered s"
  using assms by (simp add: onOptionPicked_def)

theorem single_select_repick_noop_witness:
  "\<not> isMultiple demo_single \<and> selectedOptions demo_single = [3] \<and>
   hasAttribute demo_single 3 ''selected'' \<and> onOptionPicked 3 demo_single = demo_single \<and>
   triggered (onOptionPicked 3 demo_single) = triggered demo_single"
proof -
  have m: "\<not> isMultiple demo_single" by code_simp
  have l: "selectedOptions demo_single = [3]" by code_simp
  have a: "hasAttribute demo_single 3 ''selected''" by code_simp
  have mem: "3 \<in> set (selectedOptions demo_single)" by (simp add: l)
  have inv: "\<forall>e\<in>set (selectedOptions demo_single). hasAttribute demo_single e ''selected''"
    by (simp add: l a)
  show ?thesis using m l a single_select_repick_noop [OF m mem inv] by blast
qed

text \<open>
  C7. Idempotent select. Select on an option that is in \<open>selectedOptions\<close> returns the
  state given: \<open>selectedOptions\<close> keeps its members and their order, and Form Sync
  emits the same values after as before.
\<close>

theorem select_idempotent:
  assumes "e \<in> set (selectedOptions s)"
  shows "setSelection e s = s \<and>
         selectedOptions (setSelection e s) = selectedOptions s \<and>
         fst (setInputs (setSelection e s)) = fst (setInputs s)"
  using assms by (simp add: setSelection_def)

theorem select_idempotent_witness:
  "selectedOptions demo_multi = [0, 1, 3] \<and> setSelection 1 demo_multi = demo_multi \<and>
   selectedOptions (setSelection 1 demo_multi) = selectedOptions demo_multi \<and>
   fst (setInputs (setSelection 1 demo_multi)) = fst (setInputs demo_multi)"
proof -
  have l: "selectedOptions demo_multi = [0, 1, 3]" by code_simp
  then have mem: "1 \<in> set (selectedOptions demo_multi)" by simp
  show ?thesis using l select_idempotent [OF mem] by blast
qed

text \<open>
  C8. Deselect on an option that is not in \<open>selectedOptions\<close>. The attributes of the
  option may change: in a freshly constructed widget the option C has no \<open>aria-selected\<close>
  attribute, and Deselect gives it \<open>aria-selected="false"\<close>, which is how \<open>init_\<close> marks
  the options that are not selected.
\<close>

theorem deselect_changes_aria_selected:
  "2 \<notin> set (selectedOptions demo_new) \<and>
   getAttribute demo_new 2 ''aria-selected'' = None \<and>
   getAttribute (clearSelection 2 demo_new) 2 ''aria-selected'' = Some ''false''"
  by code_simp

text \<open>
  C8, as the code has it. Deselect on an option that is not in \<open>selectedOptions\<close> leaves
  \<open>selectedOptions\<close>, every other field and every other element as they are; on the
  option itself it removes the \<open>selected\<close> marker and sets \<open>aria-selected\<close> to
  \<open>false\<close>. So nothing at all changes exactly when the option carried no \<open>selected\<close>
  marker and already had \<open>aria-selected="false"\<close>.
\<close>

theorem deselect_non_member:
  assumes "e \<notin> set (selectedOptions s)"
  shows "clearSelection e s =
           s\<lparr>store := (store s)(e := (store s e)\<lparr>attrs :=
                (attrs (store s e))(''selected'' := None, ''aria-selected'' \<mapsto> ''false'')\<rparr>)\<rparr> \<and>
         selectedOptions (clearSelection e s) = selectedOptions s \<and>
         (clearSelection e s = s \<longleftrightarrow>
            \<not> hasAttribute s e ''selected'' \<and>
            getAttribute s e ''aria-selected'' = Some ''false'')"
proof -
  let ?a = "(attrs (store s e))(''selected'' := None, ''aria-selected'' \<mapsto> ''false'')"
  have idx: "indexOf (selectedOptions s) e = - 1"
    using assms by (simp add: indexOf_notin)
  have form: "clearSelection e s = s\<lparr>store := (store s)(e := (store s e)\<lparr>attrs := ?a\<rparr>)\<rparr>"
    using idx by (simp add: clearSelection_def Let_def setAttribute_def removeAttribute_def)
  have "(clearSelection e s = s) = (?a = attrs (store s e))"
  proof
    assume "clearSelection e s = s"
    then have "attrs (store (clearSelection e s) e) = attrs (store s e)" by simp
    then show "?a = attrs (store s e)" by (simp add: attrs_clearSelection)
  next
    assume a: "?a = attrs (store s e)"
    have "(store s e)\<lparr>attrs := ?a\<rparr> = store s e" by (subst a) simp
    then have "(store s)(e := (store s e)\<lparr>attrs := ?a\<rparr>) = store s" by simp
    then show "clearSelection e s = s" unfolding form by simp
  qed
  also have "\<dots> = (\<not> hasAttribute s e ''selected'' \<and>
      getAttribute s e ''aria-selected'' = Some ''false'')"
  proof
    assume a: "?a = attrs (store s e)"
    have "?a ''selected'' = None" and "?a ''aria-selected'' = Some ''false''" by simp_all
    then show "\<not> hasAttribute s e ''selected'' \<and>
      getAttribute s e ''aria-selected'' = Some ''false''"
      unfolding a by (simp add: hasAttribute_def getAttribute_def)
  next
    assume "\<not> hasAttribute s e ''selected'' \<and>
      getAttribute s e ''aria-selected'' = Some ''false''"
    then show "?a = attrs (store s e)"
      by (auto simp: hasAttribute_def getAttribute_def fun_eq_iff)
  qed
  finally show ?thesis using form by simp
qed

theorem deselect_non_member_witness:
  "2 \<notin> set (selectedOptions demo_multi) \<and>
   selectedOptions (clearSelection 2 demo_multi) = selectedOptions demo_multi \<and>
   clearSelection 2 demo_multi = demo_multi"
proof -
  have nm: "2 \<notin> set (selectedOptions demo_multi)" by code_simp
  have a: "\<not> hasAttribute demo_multi 2 ''selected'' \<and>
    getAttribute demo_multi 2 ''aria-selected'' = Some ''false''"
    by code_simp
  have "selectedOptions (clearSelection 2 demo_multi) = selectedOptions demo_multi"
    using deselect_non_member [OF nm] by blast
  moreover have "clearSelection 2 demo_multi = demo_multi"
    using deselect_non_member [OF nm] a by blast
  ultimately show ?thesis using nm by blast
qed

text \<open>
  C9. In a widget whose host has no \<open>name\<close> (absent or empty) or that is disabled,
  Option Picked on an option without \<open>disabled\<close> that alters the selection (the option
  does not carry \<open>selected\<close>, or the widget is multi-select) dispatches exactly one more
  \<open>select\<close> event, for that option, and its list of selected values is empty.
\<close>

theorem select_event_empty_without_name:
  assumes inert: "\<not> truthy (hostAttrs s ''name'') \<or> isDisabled s"
    and enabled: "\<not> hasAttribute s el ''disabled''"
    and changes: "hasAttribute s el ''selected'' \<longrightarrow> isMultiple s"
  shows "triggered (onOptionPicked el s) =
           triggered s @ [\<lparr>targetOption = getAttribute s el ''option'',
                            selectedOptionsData = []\<rparr>]"
proof (cases "hasAttribute s el ''selected''")
  case True
  with changes have m: "isMultiple s" by simp
  have "setInputs (clearSelection el s) = ([], clearSelection el s)"
    using inert by (intro setInputs_inert) simp
  then show ?thesis
    using True m enabled
    by (simp add: onOptionPicked_def Let_def getAttribute_def attrs_clearSelection)
next
  case False
  have "setInputs (setSelection el s) = ([], setSelection el s)"
    using inert by (intro setInputs_inert) simp
  then show ?thesis
    using False enabled
    by (simp add: onOptionPicked_def Let_def getAttribute_def attrs_setSelection)
qed

theorem select_event_empty_without_name_witness:
  "\<not> truthy (hostAttrs demo_unnamed ''name'') \<and>
   \<not> hasAttribute demo_unnamed 2 ''disabled'' \<and>
   \<not> hasAttribute demo_unnamed 2 ''selected'' \<and>
   triggered (onOptionPicked 2 demo_unnamed) =
     [\<lparr>targetOption = Some ''C'', selectedOptionsData = []\<rparr>]"
proof -
  have u: "\<not> truthy (hostAttrs demo_unnamed ''name'')" by code_simp
  have d: "\<not> hasAttribute demo_unnamed 2 ''disabled''" by code_simp
  have a: "\<not> hasAttribute demo_unnamed 2 ''selected''" by code_simp
  have t: "triggered demo_unnamed = []" by code_simp
  have v: "getAttribute demo_unnamed 2 ''option'' = Some ''C''" by code_simp
  have inert: "\<not> truthy (hostAttrs demo_unnamed ''name'') \<or> isDisabled demo_unnamed"
    using u by blast
  have ch: "hasAttribute demo_unnamed 2 ''selected'' \<longrightarrow> isMultiple demo_unnamed"
    using a by blast
  have "triggered (onOptionPicked 2 demo_unnamed) =
     [\<lparr>targetOption = Some ''C'', selectedOptionsData = []\<rparr>]"
    using select_event_empty_without_name [OF inert d ch] unfolding t v by simp
  then show ?thesis using u d a by blast
qed

text \<open>
  C10. Initialization of a single-select widget. Let \<open>init_\<close> run on a widget with
  nothing selected yet, over distinct elements of which at least one (in particular two or
  more) carries \<open>selected\<close>. Afterwards \<open>selectedOptions\<close> is exactly the last marked
  element in document order, which carries the marker, and every earlier marked element
  has lost its marker.
\<close>

theorem init_single_select_keeps_last_marked:
  assumes "\<not> isMultiple s" and "selectedOptions s = []" and "distinct els"
    and "filter (\<lambda>e. hasAttribute s e ''selected'') els \<noteq> []"
  shows "selectedOptions (init els s) =
           [last (filter (\<lambda>e. hasAttribute s e ''selected'') els)] \<and>
         hasAttribute (init els s)
           (last (filter (\<lambda>e. hasAttribute s e ''selected'') els)) ''selected'' \<and>
         (\<forall>e\<in>set (butlast (filter (\<lambda>e. hasAttribute s e ''selected'') els)).
            hasAttribute s e ''selected'' \<and> \<not> hasAttribute (init els s) e ''selected'')"
proof -
  let ?m = "filter (\<lambda>e. hasAttribute s e ''selected'') els"
  let ?t = "fold init_step els s"
  from fold_init_step_single [OF assms(1,2,3)]
  have sel: "selectedOptions ?t = [last ?m]"
    and mk: "\<And>e. hasAttribute ?t e ''selected'' =
        (if e \<in> set els then e \<in> set (selectedOptions ?t) else hasAttribute s e ''selected'')"
    using assms(4) by simp_all
  have lastm: "last ?m \<in> set ?m" using assms(4) by (rule last_in_set)
  then have lastels: "last ?m \<in> set els" by simp
  have dm: "distinct ?m" using assms(3) by simp
  have m: "?m = butlast ?m @ [last ?m]" using assms(4) by simp
  have notlast: "\<And>e. e \<in> set (butlast ?m) \<Longrightarrow> e \<noteq> last ?m"
  proof -
    fix e assume e: "e \<in> set (butlast ?m)"
    have "distinct (butlast ?m @ [last ?m])" using dm m by simp
    then have "last ?m \<notin> set (butlast ?m)" by simp
    with e show "e \<noteq> last ?m" by blast
  qed
  have early: "\<And>e. e \<in> set (butlast ?m) \<Longrightarrow>
      hasAttribute s e ''selected'' \<and> \<not> hasAttribute ?t e ''selected''"
  proof -
    fix e assume e: "e \<in> set (butlast ?m)"
    then have em: "e \<in> set ?m" by (rule in_set_butlastD)
    then have "e \<in> set els" and "hasAttribute s e ''selected''" by simp_all
    moreover have "e \<noteq> last ?m" using e by (rule notlast)
    ultimately show "hasAttribute s e ''selected'' \<and> \<not> hasAttribute ?t e ''selected''"
      using sel by (simp add: mk)
  qed
  have keep: "hasAttribute ?t (last ?m) ''selected''"
    using lastels sel by (simp add: mk)
  show ?thesis
    unfolding init_selected
  proof (intro conjI ballI)
    show "selectedOptions ?t = [last ?m]" by (rule sel)
    show "hasAttribute ?t (last ?m) ''selected''" by (rule keep)
  next
    fix e assume "e \<in> set (butlast ?m)"
    then show "hasAttribute s e ''selected''" using early by blast
  next
    fix e assume "e \<in> set (butlast ?m)"
    then show "\<not> hasAttribute ?t e ''selected''" using early by blast
  qed
qed

theorem init_single_select_keeps_last_marked_witness:
  "\<not> isMultiple demo_new \<and> selectedOptions demo_new = [] \<and> distinct [0, 1, 2, 3 :: nat] \<and>
   filter (\<lambda>e. hasAttribute demo_new e ''selected'') [0, 1, 2, 3] = [0, 1, 3] \<and>
   selectedOptions (init [0, 1, 2, 3] demo_new) = [3] \<and>
   hasAttribute (init [0, 1, 2, 3] demo_new) 3 ''selected'' \<and>
   \<not> hasAttribute (init [0, 1, 2, 3] demo_new) 0 ''selected'' \<and>
   \<not> hasAttribute (init [0, 1, 2, 3] demo_new) 1 ''selected''"
proof -
  have m: "\<not> isMultiple demo_new" by code_simp
  have l: "selectedOptions demo_new = []" by code_simp
  have d: "distinct [0, 1, 2, 3 :: nat]" by simp
  have f: "filter (\<lambda>e. hasAttribute demo_new e ''selected'') [0, 1, 2, 3] = [0, 1, 3]"
    by code_simp
  have ne: "filter (\<lambda>e. hasAttribute demo_new e ''selected'') [0, 1, 2, 3] \<noteq> []"
    unfolding f by simp
  have r: "selectedOptions (init [0, 1, 2, 3] demo_new) = [last [0, 1, 3]] \<and>
      hasAttribute (init [0, 1, 2, 3] demo_new) (last [0, 1, 3]) ''selected'' \<and>
      (\<forall>e\<in>set (butlast [0, 1, 3]).
         hasAttribute demo_new e ''selected'' \<and>
         \<not> hasAttribute (init [0, 1, 2, 3] demo_new) e ''selected'')"
    using init_single_select_keeps_last_marked [OF m l d ne] unfolding f .
  have "selectedOptions (init [0, 1, 2, 3] demo_new) = [3] \<and>
      hasAttribute (init [0, 1, 2, 3] demo_new) 3 ''selected'' \<and>
      \<not> hasAttribute (init [0, 1, 2, 3] demo_new) 0 ''selected'' \<and>
      \<not> hasAttribute (init [0, 1, 2, 3] demo_new) 1 ''selected''"
    using r by simp
  then show ?thesis using m l d f by blast
qed

end
